theory Spec2Isabelle
  imports Complex_Main
begin

section \<open>Values of the host language\<close>

text \<open>
  A TypeScript \<open>number\<close> is either NaN or a (finite) numeric value. The arithmetic of the
  validators only adds, multiplies, subtracts and takes remainders of small integers, and
  compares; every operation propagates NaN and every comparison with NaN is false, as in
  the language. Infinities are left out: no conversion of a single character produces one.
\<close>

datatype number = NaN | Num real

fun num_add :: "number \<Rightarrow> number \<Rightarrow> number" where
  "num_add (Num a) (Num b) = Num (a + b)"
| "num_add _ _ = NaN"

fun num_sub :: "number \<Rightarrow> number \<Rightarrow> number" where
  "num_sub (Num a) (Num b) = Num (a - b)"
| "num_sub _ _ = NaN"

fun num_mul :: "number \<Rightarrow> number \<Rightarrow> number" where
  "num_mul (Num a) (Num b) = Num (a * b)"
| "num_mul _ _ = NaN"

text \<open>Truncation towards zero, and the remainder \<open>a % b\<close> that takes the sign of \<open>a\<close>.\<close>

definition trunc :: "real \<Rightarrow> int" where
  "trunc x = (if 0 \<le> x then \<lfloor>x\<rfloor> else \<lceil>x\<rceil>)"

fun num_rem :: "number \<Rightarrow> number \<Rightarrow> number" where
  "num_rem (Num a) (Num b) = (if b = 0 then NaN else Num (a - b * of_int (trunc (a / b))))"
| "num_rem _ _ = NaN"

text \<open>\<open>===\<close>, \<open>>=\<close> and \<open><=\<close> on numbers: false as soon as one side is NaN.\<close>

fun strict_eq :: "number \<Rightarrow> number \<Rightarrow> bool" where
  "strict_eq (Num a) (Num b) = (a = b)"
| "strict_eq _ _ = False"

fun num_ge :: "number \<Rightarrow> number \<Rightarrow> bool" where
  "num_ge (Num a) (Num b) = (b \<le> a)"
| "num_ge _ _ = False"

fun num_le :: "number \<Rightarrow> number \<Rightarrow> bool" where
  "num_le (Num a) (Num b) = (a \<le> b)"
| "num_le _ _ = False"

text \<open>
  A string is its sequence of code units; the model covers code units below 256, one
  \<^typ>\<open>char\<close> each. \<open>Number(c)\<close> of a one-character string: a decimal digit is its value,
  a white-space character or line terminator converts to 0 (the string trims to the empty
  string), anything else is NaN.
\<close>

definition isDigit :: "char \<Rightarrow> bool" where
  "isDigit c = ((48::nat) \<le> of_char c \<and> of_char c \<le> (57::nat))"

definition isStrWhiteSpace :: "char \<Rightarrow> bool" where
  "isStrWhiteSpace c = ((of_char c :: nat) \<in> {9, 10, 11, 12, 13, 32, 160})"

definition Number_of_char :: "char \<Rightarrow> number" where
  "Number_of_char c =
     (if isDigit c then Num (real (of_char c - (48::nat)))
      else if isStrWhiteSpace c then Num 0
      else NaN)"

section \<open>Messages and validation results\<close>

datatype level = Info | Warn | Error

datatype stage = Validate | Other

datatype message = Message (msg_text: string) (msg_level: level) (msg_stage: stage)

text \<open>
  \<open>ValidationResult<T>\<close> is \<open>Either<Message[], T>\<close>: \<open>Inl\<close> is the failing arm
  (\<open>E.left\<close>), \<open>Inr\<close> the success (\<open>E.right\<close>).
\<close>

type_synonym 'a validation = "message list + 'a"

subsection \<open>The pieces of the Either library that the validators use\<close>

definition fromPredicate :: "('a \<Rightarrow> bool) \<Rightarrow> ('a \<Rightarrow> 'e) \<Rightarrow> 'a \<Rightarrow> 'e + 'a" where
  "fromPredicate p onFalse a = (if p a then Inr a else Inl (onFalse a))"

fun either_map :: "('a \<Rightarrow> 'b) \<Rightarrow> 'e + 'a \<Rightarrow> 'e + 'b" where
  "either_map f (Inl e) = Inl e"
| "either_map f (Inr a) = Inr (f a)"

fun chain :: "('a \<Rightarrow> 'e + 'b) \<Rightarrow> 'e + 'a \<Rightarrow> 'e + 'b" where
  "chain f (Inl e) = Inl e"
| "chain f (Inr a) = f a"

fun mapLeft :: "('e \<Rightarrow> 'g) \<Rightarrow> 'e + 'a \<Rightarrow> 'g + 'a" where
  "mapLeft f (Inl e) = Inl (f e)"
| "mapLeft f (Inr a) = Inr a"

section \<open>Regular expressions with their \<open>lastIndex\<close>\<close>

text \<open>
  Both patterns of the source are one character class under a greedy bounded quantifier:
  \<open>\d{12,13}\<close> and \<open>[^ ]+\<close>. A match attempt at a position takes the longest run of
  class members there, cut at the upper bound, and fails when the run is shorter than the
  lower bound. A regular expression object carries its flag \<open>g\<close> and its mutable
  \<open>lastIndex\<close>.
\<close>

record pattern =
  cls :: "char \<Rightarrow> bool"
  lo :: nat
  hi :: "nat option"

record regexp =
  pat :: pattern
  global :: bool
  lastIndex :: nat

definition match_at :: "pattern \<Rightarrow> string \<Rightarrow> nat \<Rightarrow> nat option" where
  "match_at p cs i =
     (let k = length (takeWhile (cls p) cs) in
      if lo p \<le> k then Some (i + (case hi p of None \<Rightarrow> k | Some h \<Rightarrow> min k h)) else None)"

text \<open>\<open>find_match p cs i\<close>: the end index of the first match in the suffix \<open>cs\<close> that starts at index \<open>i\<close>.\<close>

fun find_match :: "pattern \<Rightarrow> string \<Rightarrow> nat \<Rightarrow> nat option" where
  "find_match p [] i = match_at p [] i"
| "find_match p (c # cs) i =
     (case match_at p (c # cs) i of
        Some e \<Rightarrow> Some e
      | None \<Rightarrow> find_match p cs (Suc i))"

text \<open>
  \<open>regex.test(s)\<close>: the search starts at \<open>lastIndex\<close> when the flag \<open>g\<close> is set and at 0
  otherwise; with \<open>g\<close> a success stores the end of the match in \<open>lastIndex\<close> and a
  failure resets it to 0. The result is the answer and the object after the call.
\<close>

definition regexp_test :: "regexp \<Rightarrow> string \<Rightarrow> bool \<times> regexp" where
  "regexp_test re s =
     (let start = (if global re then lastIndex re else 0) in
      case (if length s < start then None else find_match (pat re) (drop start s) start) of
        None \<Rightarrow> (False, if global re then re\<lparr>lastIndex := 0\<rparr> else re)
      | Some e \<Rightarrow> (True, if global re then re\<lparr>lastIndex := e\<rparr> else re))"

text \<open>The literals \<open>/\d{12,13}/g\<close> and \<open>/[^ ]+/g\<close>, as created: \<open>lastIndex\<close> is 0.\<close>

definition digits_12_13 :: regexp where
  "digits_12_13 = \<lparr>pat = \<lparr>cls = isDigit, lo = 12, hi = Some 13\<rparr>, global = True, lastIndex = 0\<rparr>"

definition no_spaces :: regexp where
  "no_spaces = \<lparr>pat = \<lparr>cls = (\<lambda>c. c \<noteq> CHR '' ''), lo = 1, hi = None\<rparr>, global = True, lastIndex = 0\<rparr>"

section \<open>Field validations\<close>

text \<open>
  Each combinator returns a thunk; the model is the value one invocation of the thunk
  returns. \<open>toStr\<close> is the language's conversion of a number inside a template literal.
\<close>

definition validateMaxLength :: "(number \<Rightarrow> string) \<Rightarrow> number \<Rightarrow> string \<Rightarrow> string validation" where
  "validateMaxLength toStr len val =
     (if num_le (Num (real (length val))) len then Inr val
      else Inl [Message (''Cannot be more than '' @ toStr len @ '' characters.'') Warn Validate])"

definition validateWholeNumber :: "number \<Rightarrow> number validation" where
  "validateWholeNumber val =
     (if strict_eq (num_rem val (Num 1)) (Num 0) then Inr val
      else Inl [Message ''Whole numbers only.'' Error Validate])"

definition validateRangeInclusive ::
  "(number \<Rightarrow> string) \<Rightarrow> number \<Rightarrow> number \<Rightarrow> number \<Rightarrow> number validation" where
  "validateRangeInclusive toStr mn mx val =
     (if num_ge val mn \<and> num_le val mx then Inr val
      else Inl [Message (''Value must be between '' @ toStr mn @ '' and '' @ toStr mx @ ''.'')
                  Error Validate])"

text \<open>
  \<open>validateRegex\<close> calls \<open>test\<close> on the regular expression object it was given, so one
  invocation of its thunk also returns that object's next state.
\<close>

definition validateRegex :: "regexp \<Rightarrow> string \<Rightarrow> string validation \<times> regexp" where
  "validateRegex regex val =
     (let (ok, regex') = regexp_test regex val in
      (if ok then Inr val
       else Inl [Message ''Value does not meet required format.'' Warn Validate], regex'))"

definition validatePositive :: "number \<Rightarrow> number validation" where
  "validatePositive val =
     (if num_ge val (Num (1 / 100)) then Inr val
      else Inl [Message ''Value must be at least 1 cent.'' Error Validate])"

subsection \<open>The UPC or EAN check\<close>

text \<open>
  \<open>Str.split("")\<close> gives the one-character strings of its argument, and the one-element
  array holding the empty string when the argument is empty; \<open>Number\<close> of the empty string
  is 0.
\<close>

definition allDigits :: "string \<Rightarrow> number list" where
  "allDigits s = (if s = [] then [Num 0] else map Number_of_char s)"

text \<open>
  \<open>RA.partitionWithIndex\<close>: the elements whose index and value satisfy the predicate go
  to \<open>right\<close>, the others to \<open>left\<close>; the result here is the pair \<open>(left, right)\<close>.
\<close>

fun partitionWithIndex_from :: "nat \<Rightarrow> (nat \<Rightarrow> 'a \<Rightarrow> bool) \<Rightarrow> 'a list \<Rightarrow> 'a list \<times> 'a list" where
  "partitionWithIndex_from i p [] = ([], [])"
| "partitionWithIndex_from i p (a # as) =
     (let (l, r) = partitionWithIndex_from (Suc i) p as in
      if p i a then (l, a # r) else (a # l, r))"

definition partitionWithIndex :: "(nat \<Rightarrow> 'a \<Rightarrow> bool) \<Rightarrow> 'a list \<Rightarrow> 'a list \<times> 'a list" where
  "partitionWithIndex p as = partitionWithIndex_from 0 p as"

definition reduce_sum :: "number list \<Rightarrow> number" where
  "reduce_sum ds = foldl (\<lambda>acc digit. num_add acc digit) (Num 0) ds"

text \<open>
  The function given to \<open>E.map\<close> and the function given to \<open>E.chain\<close>, named here.
  In the second, \<open>evenIndices\<close> is bound to \<open>left\<close> and \<open>oddIndices\<close> to \<open>right\<close>, as the
  source destructures them.
\<close>

definition pad12 :: "string \<Rightarrow> string" where
  "pad12 upcOrEan = (if length upcOrEan = 12 then ''0'' @ upcOrEan else upcOrEan)"

definition checksum :: "string \<Rightarrow> string + string" where
  "checksum upcOrEan =
     (let digits = allDigits upcOrEan;
          checksumDigit = (case rev digits of [] \<Rightarrow> Num 0 | d # _ \<Rightarrow> d);
          (evenIndices, oddIndices) = partitionWithIndex (\<lambda>idx _. idx mod 2 = 0) (butlast digits);
          sumEvens = reduce_sum evenIndices;
          sumOdds = reduce_sum oddIndices;
          remainder = num_rem (num_add (num_mul sumEvens (Num 3)) sumOdds) (Num 10)
      in if \<not> strict_eq (num_sub (Num 10) remainder) checksumDigit
         then Inl ''Invalid UPC or EAN.''
         else Inr upcOrEan)"

definition validateUpcOrEan :: "string \<Rightarrow> string validation" where
  "validateUpcOrEan val =
     mapLeft (\<lambda>msg. [Message msg Error Validate])
       (chain checksum
         (either_map pad12
           (fromPredicate (\<lambda>upcOrEan. fst (regexp_test digits_12_13 upcOrEan))
                          (\<lambda>_. ''Must be 12 or 13 digits.'') val)))"

section \<open>Combining validation results\<close>

text \<open>
  \<open>sequenceValidationT\<close> is \<open>Ap.sequenceT\<close> at the applicative
  \<open>E.getApplicativeValidation(NEA.getSemigroup<Message>())\<close>. The semigroup is array
  concatenation, and the library's \<open>ap\<close> concatenates the two failures when both sides
  fail.
\<close>

fun ap_validation :: "'e list + ('a \<Rightarrow> 'b) \<Rightarrow> 'e list + 'a \<Rightarrow> 'e list + 'b" where
  "ap_validation (Inl e1) (Inl e2) = Inl (e1 @ e2)"
| "ap_validation (Inl e1) (Inr a) = Inl e1"
| "ap_validation (Inr f) (Inl e2) = Inl e2"
| "ap_validation (Inr f) (Inr a) = Inr (f a)"

text \<open>
  \<open>sequenceT\<close> maps the curried tuple constructor over its first argument and then applies
  \<open>ap\<close> to each further argument, left to right. The tuple constructor that has received
  some of its arguments is modelled by the list of those arguments. The type of
  \<open>sequenceT\<close> asks for at least one argument.
\<close>

definition sequenceValidationT :: "'e list + 'a \<Rightarrow> ('e list + 'a) list \<Rightarrow> 'e list + 'a list" where
  "sequenceValidationT r rs =
     foldl (\<lambda>fas fa. ap_validation (either_map (\<lambda>acc a. acc @ [a]) fas) fa)
           (either_map (\<lambda>a. [a]) r) rs"

text \<open>
  Modelled from the spec: \<open>runValidations\<close> is imported from the repository's utilities but
  its definition is not among the source files. The spec: given one or more already-invoked
  results for one field, the aggregate is \<open>Ok\<close> (of the last success value) only if every
  input was \<open>Ok\<close>, and otherwise \<open>Fail\<close> with the concatenation, in input order, of every
  issue of every failing input; it is an explicit fold over the results with concatenation
  on the failure branch.
\<close>

fun runValidations_step :: "'e list + 'a \<Rightarrow> 'e list + 'a \<Rightarrow> 'e list + 'a" where
  "runValidations_step (Inl e1) (Inl e2) = Inl (e1 @ e2)"
| "runValidations_step (Inl e1) (Inr a) = Inl e1"
| "runValidations_step (Inr a) r = r"

definition runValidations :: "'e list + 'a \<Rightarrow> ('e list + 'a) list \<Rightarrow> 'e list + 'a" where
  "runValidations r rs = foldl runValidations_step r rs"

text \<open>The issues of the failing results of a list, in order, and its success values.\<close>

fun lefts :: "('e + 'a) list \<Rightarrow> 'e list" where
  "lefts [] = []"
| "lefts (Inl e # rs) = e # lefts rs"
| "lefts (Inr a # rs) = lefts rs"

fun rights :: "('e + 'a) list \<Rightarrow> 'a list" where
  "rights [] = []"
| "rights (Inl e # rs) = rights rs"
| "rights (Inr a # rs) = a # rights rs"

section \<open>Record hooks\<close>

text \<open>
  Modelled from the spec: the record abstraction belongs to the platform and is not among
  the source files. The spec: a record is a caller-owned bag of field values with an
  accumulating list of (field name, message, severity) annotations; \<open>get(fieldName)\<close>
  reads a value and adding an issue is a mutating append. \<open>addError\<close> adds an issue of
  severity \<open>error\<close>.
\<close>

datatype fvalue = Null | Undefined | Str string | Numeric number | Boolean bool

record frecord =
  data :: "string \<Rightarrow> fvalue"
  issues :: "(string \<times> string \<times> level) list"

definition get :: "frecord \<Rightarrow> string \<Rightarrow> fvalue" where
  "get record field = data record field"

definition addError :: "frecord \<Rightarrow> string \<Rightarrow> string \<Rightarrow> frecord" where
  "addError record field msg = record\<lparr>issues := issues record @ [(field, msg, Error)]\<rparr>"

text \<open>
  Modelled from the spec: \<open>isNil\<close> is imported from the repository's type guards, which are
  not among the source files. The spec: the required field must not be null or undefined.
\<close>

definition isNil :: "fvalue \<Rightarrow> bool" where
  "isNil v = (v = Null \<or> v = Undefined)"

text \<open>A record without annotations whose fields are all null.\<close>

definition null_record :: frecord where
  "null_record = \<lparr>data = (\<lambda>_. Null), issues = []\<rparr>"

text \<open>
  What a call on the record returns: nothing, the record object it was given, or an array.
  A rule is a function from the record's state to its return value and the record's state
  after the call.
\<close>

datatype retval = RUndefined | RRecord | RArray "retval list"

type_synonym rule = "frecord \<Rightarrow> retval \<times> frecord"

definition requiredFields :: rule where
  "requiredFields record =
     (let page_id = get record ''page_id'' in
      (RRecord, if isNil page_id then addError record ''page_id'' ''Field is required.'' else record))"

text \<open>\<open>fold(...fns)(x)\<close> is \<open>fns.map((f) => f(x))\<close>: the calls run in order on the one record.\<close>

fun map_calls :: "rule list \<Rightarrow> frecord \<Rightarrow> retval list \<times> frecord" where
  "map_calls [] x = ([], x)"
| "map_calls (f # fns) x =
     (let (v, x1) = f x; (vs, x2) = map_calls fns x1 in (v # vs, x2))"

definition fold_rules :: "rule list \<Rightarrow> frecord \<Rightarrow> retval \<times> frecord" where
  "fold_rules fns x = (let (vs, x') = map_calls fns x in (RArray vs, x'))"

section \<open>The check-digit algorithm in the words of the specification\<close>

text \<open>The elements at the even and at the odd positions of a list, counted from 0.\<close>

fun at_even :: "'a list \<Rightarrow> 'a list" and at_odd :: "'a list \<Rightarrow> 'a list" where
  "at_even [] = []"
| "at_even (x # xs) = x # at_odd xs"
| "at_odd [] = []"
| "at_odd (x # xs) = at_even xs"

definition digit_val :: "char \<Rightarrow> nat" where
  "digit_val c = of_char c - 48"

text \<open>
  The specification's wording: the sum of the digits at the even positions is weighted
  by 3, and the expected check digit is \<open>(10 - remainder) mod 10\<close>.
\<close>

definition spec_expected_check :: "nat list \<Rightarrow> nat" where
  "spec_expected_check ds =
     (let sum_even = sum_list (at_even ds);
          sum_odd = sum_list (at_odd ds);
          remainder = (3 * sum_even + sum_odd) mod 10
      in (10 - remainder) mod 10)"

text \<open>
  The GTIN-13 check digit of twelve digits: weights 1 and 3 alternate from the left,
  starting with 1. A thirteen-digit code is valid when its last digit is the check digit of
  the first twelve; a twelve-digit UPC is valid when the code with a leading 0 is.
\<close>

definition gtin13_check_digit :: "nat list \<Rightarrow> nat" where
  "gtin13_check_digit ds = (10 - (sum_list (at_even ds) + 3 * sum_list (at_odd ds)) mod 10) mod 10"

definition valid_gtin13 :: "string \<Rightarrow> bool" where
  "valid_gtin13 c =
     (length c = 13 \<and> list_all isDigit c \<and>
      digit_val (last c) = gtin13_check_digit (map digit_val (butlast c)))"

definition valid_upc12 :: "string \<Rightarrow> bool" where
  "valid_upc12 u = (length u = 12 \<and> valid_gtin13 (''0'' @ u))"

section \<open>Predicates used in the statements\<close>

text \<open>A result that, when it fails, carries exactly one issue, of the given severity.\<close>

definition fails_once_with :: "level \<Rightarrow> message list + 'a \<Rightarrow> bool" where
  "fails_once_with l r =
     (case r of
        Inl ms \<Rightarrow> length ms = 1 \<and> list_all (\<lambda>m. msg_level m = l) ms
      | Inr _ \<Rightarrow> True)"

text \<open>A string that holds twelve consecutive decimal digits somewhere.\<close>

definition has_digit_run :: "string \<Rightarrow> bool" where
  "has_digit_run s = (\<exists>i. i + 12 \<le> length s \<and> list_all isDigit (take 12 (drop i s)))"

section \<open>Results on the combination of validation results\<close>

lemma lefts_Nil_iff: "lefts rs = [] \<longleftrightarrow> (\<forall>r \<in> set rs. \<not> isl r)"
  by (induction rs rule: lefts.induct) simp_all

lemma length_lefts: "length (lefts rs) = length (filter isl rs)"
  by (induction rs rule: lefts.induct) simp_all

lemma length_concat_singletons:
  "list_all (\<lambda>e. length e = 1) es \<Longrightarrow> length (concat es) = length es"
  by (induction es) simp_all

lemma lefts_rights_map_Inr: "lefts (map Inr vs) = [] \<and> rights (map Inr vs) = vs"
  by (induction vs) simp_all

lemma ap_step_Inl:
  "foldl (\<lambda>fas fa. ap_validation (either_map (\<lambda>acc a. acc @ [a]) fas) fa) (Inl e) rs
     = Inl (e @ concat (lefts rs))"
proof (induction rs arbitrary: e)
  case Nil
  show ?case by simp
next
  case (Cons r rs)
  show ?case
  proof (cases r)
    case (Inl e2)
    then show ?thesis using Cons.IH [of "e @ e2"] by simp
  next
    case (Inr a)
    then show ?thesis using Cons.IH [of e] by simp
  qed
qed

lemma ap_step_Inr:
  "foldl (\<lambda>fas fa. ap_validation (either_map (\<lambda>acc a. acc @ [a]) fas) fa) (Inr acc) rs
     = (if lefts rs = [] then Inr (acc @ rights rs) else Inl (concat (lefts rs)))"
proof (induction rs arbitrary: acc)
  case Nil
  show ?case by simp
next
  case (Cons r rs)
  show ?case
  proof (cases r)
    case (Inl e2)
    then show ?thesis by (simp add: ap_step_Inl)
  next
    case (Inr a)
    then show ?thesis using Cons.IH [of "acc @ [a]"] by simp
  qed
qed

lemma sequenceValidationT_eq:
  "sequenceValidationT r rs =
     (if lefts (r # rs) = [] then Inr (rights (r # rs)) else Inl (concat (lefts (r # rs))))"
  by (cases r) (simp_all add: sequenceValidationT_def ap_step_Inl ap_step_Inr)

text \<open>
  Claim C6. The sequencer on \<open>[Ok(x), Fail([a]), Fail([b,c])]\<close> is \<open>Fail([a,b,c])\<close>; on
  inputs that are all \<open>Ok\<close> it is \<open>Ok\<close> of the success values in input order; and as soon as
  one input fails, the result is the failure that carries the issues of every failing input,
  concatenated in input order, so that no failing input hides another one.
\<close>

theorem sequence_failure_union:
  "sequenceValidationT (Inr (x :: 'a)) [Inl [a :: 'e], Inl [b, c]] = Inl [a, b, c] \<and>
   sequenceValidationT (Inr (v :: 'a)) (map Inr vs) = (Inr (v # vs) :: 'e list + 'a list) \<and>
   ((\<exists>r' \<in> set (r # rs). isl r') \<longrightarrow>
      sequenceValidationT r rs = (Inl (concat (lefts (r # rs))) :: 'e list + 'a list))"
proof -
  have "lefts (r # rs) \<noteq> []" if "\<exists>r' \<in> set (r # rs). isl r'"
    using that lefts_Nil_iff [of "r # rs"] by blast
  then show ?thesis
    by (simp add: sequenceValidationT_eq lefts_rights_map_Inr)
qed

theorem sequence_failure_union_witness:
  "(\<exists>r' \<in> set [Inr 7, Inl [1], Inl [2, 3 :: nat]]. isl r') \<and>
   sequenceValidationT (Inr (7 :: nat)) [Inl [1], Inl [2, 3 :: nat]] = Inl [1, 2, 3] \<and>
   sequenceValidationT (Inr (7 :: nat)) (map Inr [8, 9]) = (Inr [7, 8, 9] :: nat list + nat list)"
  using sequence_failure_union [of "7 :: nat" "1 :: nat" 2 3 7 "[8, 9]" "Inr 7" "[Inl [1], Inl [2, 3]]"]
  by simp

lemma run_step_Inl:
  "foldl runValidations_step (Inl e) rs = Inl (e @ concat (lefts rs))"
proof (induction rs arbitrary: e)
  case Nil
  show ?case by simp
next
  case (Cons r rs)
  show ?case
  proof (cases r)
    case (Inl e2)
    then show ?thesis using Cons.IH [of "e @ e2"] by simp
  next
    case (Inr a)
    then show ?thesis using Cons.IH [of e] by simp
  qed
qed

lemma run_step_Inr:
  "foldl runValidations_step (Inr a) rs =
     (if lefts rs = [] then Inr (last (a # rights rs)) else Inl (concat (lefts rs)))"
proof (induction rs arbitrary: a)
  case Nil
  show ?case by simp
next
  case (Cons r rs)
  show ?case
  proof (cases r)
    case (Inl e2)
    then show ?thesis by (simp add: run_step_Inl)
  next
    case (Inr b)
    then show ?thesis using Cons.IH [of b] by simp
  qed
qed

lemma runValidations_eq:
  "runValidations r rs =
     (if lefts (r # rs) = [] then Inr (last (rights (r # rs))) else Inl (concat (lefts (r # rs))))"
  by (cases r) (simp_all add: runValidations_def run_step_Inl run_step_Inr)

text \<open>
  Claim C5. Accumulation law of \<open>runValidations\<close>: when at least one of the results fails,
  the aggregate is the failure whose issues are those of the failing inputs, concatenated
  in input order, whichever inputs fail; when each failing input carries one issue, there
  are as many issues as failing inputs. When every input is \<open>Ok\<close>, the aggregate is \<open>Ok\<close>.
\<close>

theorem runValidations_accumulation:
  "((\<exists>x \<in> set (r # rs). isl x) \<longrightarrow>
      runValidations r rs = Inl (concat (lefts (r # rs))) \<and>
      (list_all (\<lambda>e. length e = 1) (lefts (r # rs)) \<longrightarrow>
         length (concat (lefts (r # rs))) = length (filter isl (r # rs)))) \<and>
   ((\<forall>x \<in> set (r # rs). \<not> isl x) \<longrightarrow> \<not> isl (runValidations r rs))"
proof -
  have some: "lefts (r # rs) \<noteq> []" if "\<exists>x \<in> set (r # rs). isl x"
    using that lefts_Nil_iff [of "r # rs"] by blast
  have none: "lefts (r # rs) = []" if "\<forall>x \<in> set (r # rs). \<not> isl x"
    using that lefts_Nil_iff [of "r # rs"] by blast
  have count: "length (concat (lefts (r # rs))) = length (filter isl (r # rs))"
    if "list_all (\<lambda>e. length e = 1) (lefts (r # rs))"
    using length_concat_singletons [OF that] length_lefts [of "r # rs"] by simp
  show ?thesis
    using some none count by (simp only: runValidations_eq) auto
qed

theorem runValidations_accumulation_witness:
  "(\<exists>x \<in> set [Inr 0, Inl [1], Inr 5, Inl [2 :: nat]]. isl x) \<and>
   list_all (\<lambda>e. length e = 1) (lefts [Inr (0 :: nat), Inl [1], Inr 5, Inl [2 :: nat]]) \<and>
   runValidations (Inr (0 :: nat)) [Inl [1], Inr 5, Inl [2 :: nat]] = Inl [1, 2] \<and>
   length (filter isl [Inr (0 :: nat), Inl [1], Inr 5, Inl [2 :: nat]]) = 2 \<and>
   list_all (\<lambda>x. \<not> isl x) [Inr 1, Inr 2 :: nat list + nat] \<and>
   \<not> isl (runValidations (Inr 1) [Inr 2 :: nat list + nat])"
  using runValidations_accumulation [of "Inr (0 :: nat)" "[Inl [1], Inr 5, Inl [2 :: nat]]"]
        runValidations_accumulation [of "Inr 1" "[Inr 2 :: nat list + nat]"]
  by simp

section \<open>Results on the record hooks\<close>

lemma map_calls_state: "snd (map_calls fns x) = foldl (\<lambda>s f. snd (f s)) x fns"
  by (induction fns arbitrary: x) (simp_all add: split_beta)

lemma map_calls_values:
  "fst (map_calls fns x) =
     map (\<lambda>i. fst ((fns ! i) (foldl (\<lambda>s f. snd (f s)) x (take i fns)))) [0..<length fns]"
proof (induction fns arbitrary: x)
  case Nil
  show ?case by simp
next
  case (Cons f fns)
  have "[0..<length (f # fns)] = 0 # map Suc [0..<length fns]"
    by (simp add: upt_conv_Cons map_Suc_upt del: upt_Suc)
  then show ?case
    using Cons.IH [of "snd (f x)"] by (simp add: split_beta o_def)
qed

text \<open>
  Claim C7, amended. \<open>fold(...fns)(r)\<close> calls each rule on the record in the listed order,
  each rule on the record as the rules before it left it, and the record ends as the last
  rule leaves it. What the call returns is the array of the rules' return values, one for
  each rule and in the order of the rules; it is not the record.
\<close>

theorem fold_applies_in_order:
  "fold_rules fns r =
     (RArray (map (\<lambda>i. fst ((fns ! i) (foldl (\<lambda>s f. snd (f s)) r (take i fns)))) [0..<length fns]),
      foldl (\<lambda>s f. snd (f s)) r fns)"
  using map_calls_values [of fns r] map_calls_state [of fns r]
  by (simp add: fold_rules_def split_beta prod_eq_iff)

text \<open>The claim as stated fails: on one rule and a record, the call returns a one-element array.\<close>

theorem fold_returns_record_counterexample:
  "fst (fold_rules [requiredFields] null_record) \<noteq> RRecord"
  by (simp add: fold_rules_def requiredFields_def split_beta)

text \<open>
  Claim C9. When the value of \<open>page_id\<close> is null or undefined, \<open>requiredFields\<close> appends
  one annotation of severity \<open>error\<close> for the field \<open>page_id\<close> to the issues of the record
  and changes nothing else; when the value is present, the record is unchanged.
\<close>

theorem requiredFields_rule:
  "(isNil (get r ''page_id'') \<longrightarrow>
      snd (requiredFields r) =
        r\<lparr>issues := issues r @ [(''page_id'', ''Field is required.'', Error)]\<rparr>) \<and>
   (\<not> isNil (get r ''page_id'') \<longrightarrow> snd (requiredFields r) = r)"
  by (simp add: requiredFields_def addError_def)

theorem requiredFields_rule_witness:
  "isNil (get null_record ''page_id'') \<and>
   issues (snd (requiredFields null_record))
     = [(''page_id'', ''Field is required.'', Error)] \<and>
   \<not> isNil (get \<lparr>data = (\<lambda>_. Str ''p1''), issues = []\<rparr> ''page_id'') \<and>
   issues (snd (requiredFields \<lparr>data = (\<lambda>_. Str ''p1''), issues = []\<rparr>)) = []"
  using requiredFields_rule [of null_record]
        requiredFields_rule [of "\<lparr>data = (\<lambda>_. Str ''p1''), issues = []\<rparr>"]
  by (simp add: isNil_def get_def null_record_def)

section \<open>Results on the field validations\<close>

subsection \<open>The format gate of the UPC or EAN check\<close>

lemma length_takeWhile_ge:
  "n \<le> length (takeWhile P xs) \<longleftrightarrow> n \<le> length xs \<and> list_all P (take n xs)"
proof (induction xs arbitrary: n)
  case Nil
  show ?case by simp
next
  case (Cons x xs)
  show ?case
  proof (cases n)
    case 0
    then show ?thesis by simp
  next
    case (Suc m)
    then show ?thesis using Cons.IH [of m] by simp
  qed
qed

lemma match_at_digits:
  "match_at \<lparr>cls = isDigit, lo = 12, hi = Some 13\<rparr> cs i \<noteq> None
     \<longleftrightarrow> 12 \<le> length cs \<and> list_all isDigit (take 12 cs)"
  using length_takeWhile_ge [of 12 isDigit cs] by (simp add: match_at_def Let_def)

lemma find_match_digits:
  "find_match \<lparr>cls = isDigit, lo = 12, hi = Some 13\<rparr> cs i \<noteq> None \<longleftrightarrow> has_digit_run cs"
proof (induction cs arbitrary: i)
  case Nil
  show ?case
    using match_at_digits [of "[]" i] by (simp add: has_digit_run_def)
next
  case (Cons c cs)
  have run: "has_digit_run (c # cs) \<longleftrightarrow>
      (12 \<le> length (c # cs) \<and> list_all isDigit (take 12 (c # cs))) \<or> has_digit_run cs"
  proof
    assume "has_digit_run (c # cs)"
    then obtain j where j: "j + 12 \<le> length (c # cs)" "list_all isDigit (take 12 (drop j (c # cs)))"
      unfolding has_digit_run_def by blast
    show "(12 \<le> length (c # cs) \<and> list_all isDigit (take 12 (c # cs))) \<or> has_digit_run cs"
    proof (cases j)
      case 0
      then show ?thesis using j by simp
    next
      case (Suc k)
      then have "k + 12 \<le> length cs" "list_all isDigit (take 12 (drop k cs))"
        using j by simp_all
      then show ?thesis unfolding has_digit_run_def by blast
    qed
  next
    assume "(12 \<le> length (c # cs) \<and> list_all isDigit (take 12 (c # cs))) \<or> has_digit_run cs"
    then show "has_digit_run (c # cs)"
    proof
      assume "12 \<le> length (c # cs) \<and> list_all isDigit (take 12 (c # cs))"
      then have "0 + 12 \<le> length (c # cs) \<and> list_all isDigit (take 12 (drop 0 (c # cs)))"
        by simp
      then show ?thesis unfolding has_digit_run_def by blast
    next
      assume "has_digit_run cs"
      then obtain k where "k + 12 \<le> length cs" "list_all isDigit (take 12 (drop k cs))"
        unfolding has_digit_run_def by blast
      then have "Suc k + 12 \<le> length (c # cs) \<and> list_all isDigit (take 12 (drop (Suc k) (c # cs)))"
        by simp
      then show ?thesis unfolding has_digit_run_def by blast
    qed
  qed
  show ?case
  proof (cases "match_at \<lparr>cls = isDigit, lo = 12, hi = Some 13\<rparr> (c # cs) i")
    case None
    then show ?thesis
      using match_at_digits [of "c # cs" i] Cons.IH [of "Suc i"] run by auto
  next
    case (Some e)
    then show ?thesis
      using match_at_digits [of "c # cs" i] run by auto
  qed
qed

lemma gate_iff_run: "fst (regexp_test digits_12_13 s) \<longleftrightarrow> has_digit_run s"
  using find_match_digits [of s 0]
  by (auto simp: regexp_test_def digits_12_13_def split: option.splits)

lemma format_gate:
  "validateUpcOrEan s = Inl [Message ''Must be 12 or 13 digits.'' Error Validate]
     \<longleftrightarrow> \<not> has_digit_run s"
  by (simp add: validateUpcOrEan_def fromPredicate_def gate_iff_run checksum_def Let_def split_beta)

subsection \<open>The checksum on strings of digits\<close>

lemma Number_of_char_digit: "isDigit c \<Longrightarrow> Number_of_char c = Num (real (digit_val c))"
  by (simp add: Number_of_char_def digit_val_def)

lemma allDigits_digits:
  "list_all isDigit s \<Longrightarrow> s \<noteq> [] \<Longrightarrow> allDigits s = map (\<lambda>c. Num (real (digit_val c))) s"
  by (simp add: allDigits_def list_all_iff Number_of_char_digit)

lemma partition_parity:
  "partitionWithIndex_from i (\<lambda>idx _. idx mod 2 = 0) xs =
     (if even i then (at_odd xs, at_even xs) else (at_even xs, at_odd xs))"
  by (induction xs arbitrary: i) (simp_all flip: even_iff_mod_2_eq_zero)

lemma at_even_odd_map:
  "at_even (map f xs) = map f (at_even xs) \<and> at_odd (map f xs) = map f (at_odd xs)"
  by (induction xs) simp_all

lemma foldl_num_add:
  "foldl (\<lambda>acc digit. num_add acc digit) (Num a) (map (\<lambda>n. Num (real n)) ns) = Num (a + real (sum_list ns))"
  by (induction ns arbitrary: a) (simp_all add: add.assoc)

lemma reduce_sum_nats: "reduce_sum (map (\<lambda>n. Num (real n)) ns) = Num (real (sum_list ns))"
  using foldl_num_add [of 0 ns] by (simp add: reduce_sum_def)

lemma num_rem_10: "num_rem (Num (real a)) (Num 10) = Num (real (a mod 10))"
proof -
  have "\<lfloor>real a / 10\<rfloor> = int (a div 10)"
    using floor_divide_of_nat_eq [of a 10, where ?'a = real] by simp
  then have "real a - 10 * real_of_int (trunc (real a / 10)) = real a - 10 * real (a div 10)"
    by (simp add: trunc_def)
  also have "\<dots> = real (a mod 10)"
  proof -
    have "real a = real (10 * (a div 10) + a mod 10)"
      by simp
    also have "\<dots> = 10 * real (a div 10) + real (a mod 10)"
      by (simp only: of_nat_add of_nat_mult of_nat_numeral)
    finally show ?thesis by linarith
  qed
  finally show ?thesis by simp
qed

lemma checksum_digits:
  assumes "list_all isDigit s" and "s \<noteq> []"
  shows "checksum s =
     (if 10 - (3 * sum_list (at_odd (map digit_val (butlast s)))
                 + sum_list (at_even (map digit_val (butlast s)))) mod 10 = digit_val (last s)
      then Inr s else Inl ''Invalid UPC or EAN.'')"
proof -
  let ?f = "\<lambda>c. Num (real (digit_val c))"
  let ?ds = "map digit_val (butlast s)"
  let ?rem = "(3 * sum_list (at_odd ?ds) + sum_list (at_even ?ds)) mod 10"
  have all: "allDigits s = map ?f s"
    using assms by (rule allDigits_digits)
  have last: "(case rev (map ?f s) of [] \<Rightarrow> Num 0 | d # _ \<Rightarrow> d) = ?f (last s)"
    using assms(2) by (cases s rule: rev_cases) simp_all
  have bl: "butlast (map ?f s) = map (\<lambda>n. Num (real n)) ?ds"
    by (simp add: map_butlast o_def)
  have part: "partitionWithIndex (\<lambda>idx _. idx mod 2 = 0) (butlast (map ?f s)) =
        (map (\<lambda>n. Num (real n)) (at_odd ?ds), map (\<lambda>n. Num (real n)) (at_even ?ds))"
    unfolding bl partitionWithIndex_def partition_parity
    using at_even_odd_map [of "\<lambda>n. Num (real n)" ?ds] by simp
  have rem: "num_rem (num_add (num_mul (reduce_sum (map (\<lambda>n. Num (real n)) (at_odd ?ds))) (Num 3))
                (reduce_sum (map (\<lambda>n. Num (real n)) (at_even ?ds)))) (Num 10) = Num (real ?rem)"
  proof -
    have "num_add (num_mul (Num (real (sum_list (at_odd ?ds)))) (Num 3)) (Num (real (sum_list (at_even ?ds))))
          = Num (real (3 * sum_list (at_odd ?ds) + sum_list (at_even ?ds)))"
      by simp
    then show ?thesis
      unfolding reduce_sum_nats using num_rem_10 by presburger
  qed
  have eq: "strict_eq (num_sub (Num 10) (Num (real ?rem))) (?f (last s)) \<longleftrightarrow> 10 - ?rem = digit_val (last s)"
  proof -
    have "?rem < 10" by simp
    then have "real 10 - real ?rem = real (10 - ?rem)"
      by (metis less_imp_le_nat of_nat_diff)
    then have "(10 - real ?rem = real (digit_val (last s))) = (10 - ?rem = digit_val (last s))"
      by (metis of_nat_eq_iff of_nat_numeral)
    then show ?thesis by simp
  qed
  show ?thesis
    unfolding checksum_def all last part Let_def prod.case rem eq by simp
qed

lemma gate_digits:
  assumes "list_all isDigit s" and "12 \<le> length s"
  shows "fst (regexp_test digits_12_13 s)"
proof -
  have tw: "takeWhile isDigit s = s"
    using assms(1) by (simp add: list_all_iff)
  have "match_at \<lparr>cls = isDigit, lo = 12, hi = Some 13\<rparr> s 0 = Some (min (length s) 13)"
    using assms(2) by (simp add: match_at_def tw)
  then have "find_match \<lparr>cls = isDigit, lo = 12, hi = Some 13\<rparr> s 0 = Some (min (length s) 13)"
    by (cases s) simp_all
  then show ?thesis
    by (simp add: regexp_test_def digits_12_13_def)
qed

lemma validateUpcOrEan_digits:
  assumes "list_all isDigit s" and "length s = 12 \<or> length s = 13"
  shows "validateUpcOrEan s =
     (if 10 - (3 * sum_list (at_odd (map digit_val (butlast (pad12 s))))
                 + sum_list (at_even (map digit_val (butlast (pad12 s))))) mod 10
           = digit_val (last (pad12 s))
      then Inr (pad12 s) else Inl [Message ''Invalid UPC or EAN.'' Error Validate])"
proof -
  have gate: "fst (regexp_test digits_12_13 s)"
    using assms by (auto intro: gate_digits)
  have "isDigit CHR ''0''" by (simp add: isDigit_def)
  then have pd: "list_all isDigit (pad12 s)" and ne: "pad12 s \<noteq> []"
    using assms by (auto simp: pad12_def)
  show ?thesis
    using gate by (simp add: validateUpcOrEan_def fromPredicate_def checksum_digits [OF pd ne])
qed

lemma digit_val_bounds: "isDigit c \<Longrightarrow> digit_val c \<le> 9"
  unfolding isDigit_def digit_val_def by linarith

lemma digit_val_inj: "isDigit c \<Longrightarrow> isDigit d \<Longrightarrow> digit_val c = digit_val d \<Longrightarrow> c = d"
proof -
  assume a: "isDigit c" "isDigit d" "digit_val c = digit_val d"
  then have "(of_char c :: nat) = of_char d"
    unfolding isDigit_def digit_val_def by linarith
  then show "c = d" by simp
qed

text \<open>
  Claim C1, amended. On a string of 12 or 13 digits, padded to 13 with a leading 0, the
  validator takes the last digit as the check digit, sums the digits at the odd positions
  (counted from 0) of the other twelve and the digits at their even positions, and computes
  the remainder of three times the sum at the odd positions plus the sum at the even
  positions, modulo 10. When that remainder is not 0, the expected check digit is
  \<open>(10 - remainder) mod 10\<close> and the validator fails exactly when it differs from the last
  digit; it succeeds with the padded string otherwise.
\<close>

theorem checksum_weights:
  assumes "list_all isDigit s" and "length s = 12 \<or> length s = 13"
    and "(3 * sum_list (at_odd (map digit_val (butlast (pad12 s))))
            + sum_list (at_even (map digit_val (butlast (pad12 s))))) mod 10 \<noteq> 0"
  shows "validateUpcOrEan s =
     (if (10 - (3 * sum_list (at_odd (map digit_val (butlast (pad12 s))))
                  + sum_list (at_even (map digit_val (butlast (pad12 s))))) mod 10) mod 10
           = digit_val (last (pad12 s))
      then Inr (pad12 s) else Inl [Message ''Invalid UPC or EAN.'' Error Validate])"
  using assms(3) by (simp add: validateUpcOrEan_digits [OF assms(1,2)])

theorem checksum_weights_witness:
  "list_all isDigit ''036000291452'' \<and> length ''036000291452'' = 12 \<and>
   (3 * sum_list (at_odd (map digit_val (butlast (pad12 ''036000291452''))))
      + sum_list (at_even (map digit_val (butlast (pad12 ''036000291452''))))) mod 10 = 8 \<and>
   validateUpcOrEan ''036000291452'' = Inr ''0036000291452'' \<and>
   validateUpcOrEan ''036000291453'' = Inl [Message ''Invalid UPC or EAN.'' Error Validate]"
  using checksum_weights [of "''036000291452''"] checksum_weights [of "''036000291453''"]
  by (simp add: isDigit_def pad12_def digit_val_def)

text \<open>
  The claim as stated fails: on the code 0036000291452 the validator succeeds, while the
  expected check digit in the specification's wording (weight 3 on the even positions) is
  8 and the last digit is 2.
\<close>

theorem checksum_weights_counterexample:
  "\<not> (isl (validateUpcOrEan ''0036000291452'') \<longleftrightarrow>
       spec_expected_check (map digit_val (butlast ''0036000291452''))
         \<noteq> digit_val (last ''0036000291452''))"
proof -
  have "list_all isDigit ''0036000291452''"
    by (simp add: isDigit_def)
  then have "validateUpcOrEan ''0036000291452'' = Inr ''0036000291452''"
    by (simp add: validateUpcOrEan_digits pad12_def digit_val_def)
  moreover have "spec_expected_check (map digit_val (butlast ''0036000291452'')) = 8"
    by (simp add: spec_expected_check_def digit_val_def)
  moreover have "digit_val (last ''0036000291452'') = 2"
    by (simp add: digit_val_def)
  ultimately show ?thesis by simp
qed

text \<open>
  Claim C2. 0123456789050 is a valid thirteen-digit code: its last digit, 0, is the check
  digit of its first twelve digits. The validator rejects it: the remainder is 0, and the
  code compares \<open>10 - 0\<close> with the last digit.
\<close>

theorem check_digit_zero_rejected:
  "valid_gtin13 ''0123456789050'' \<and>
   validateUpcOrEan ''0123456789050'' = Inl [Message ''Invalid UPC or EAN.'' Error Validate]"
proof -
  have d: "list_all isDigit ''0123456789050''"
    by (simp add: isDigit_def)
  have "valid_gtin13 ''0123456789050''"
    by (simp add: valid_gtin13_def isDigit_def digit_val_def gtin13_check_digit_def)
  moreover have "validateUpcOrEan ''0123456789050'' = Inl [Message ''Invalid UPC or EAN.'' Error Validate]"
    using d by (simp add: validateUpcOrEan_digits pad12_def digit_val_def)
  ultimately show ?thesis by simp
qed

text \<open>
  Every valid code whose check digit is not 0 is accepted and returned unchanged, and a
  valid code whose last digit is replaced by another digit is rejected.
\<close>

lemma valid_gtin13_accepted:
  assumes "valid_gtin13 c" and "digit_val (last c) \<noteq> 0"
  shows "validateUpcOrEan c = Inr c"
proof -
  let ?ds = "map digit_val (butlast c)"
  let ?rem = "(3 * sum_list (at_odd ?ds) + sum_list (at_even ?ds)) mod 10"
  have len: "length c = 13" and dig: "list_all isDigit c"
    and chk: "digit_val (last c) = (10 - (sum_list (at_even ?ds) + 3 * sum_list (at_odd ?ds)) mod 10) mod 10"
    using assms(1) by (simp_all add: valid_gtin13_def gtin13_check_digit_def)
  have "digit_val (last c) = (10 - ?rem) mod 10"
    using chk by (simp add: add.commute)
  then have "10 - ?rem = digit_val (last c)"
    using assms(2) by (cases "?rem = 0") simp_all
  then show ?thesis
    using validateUpcOrEan_digits [OF dig] len by (simp add: pad12_def)
qed

lemma altered_check_digit_rejected:
  assumes "valid_gtin13 c" and "isDigit d" and "d \<noteq> last c"
  shows "validateUpcOrEan (butlast c @ [d]) = Inl [Message ''Invalid UPC or EAN.'' Error Validate]"
proof -
  let ?ds = "map digit_val (butlast c)"
  let ?rem = "(3 * sum_list (at_odd ?ds) + sum_list (at_even ?ds)) mod 10"
  have len: "length c = 13" and dig: "list_all isDigit c"
    and chk: "digit_val (last c) = (10 - (sum_list (at_even ?ds) + 3 * sum_list (at_odd ?ds)) mod 10) mod 10"
    using assms(1) by (simp_all add: valid_gtin13_def gtin13_check_digit_def)
  have ne: "c \<noteq> []" using len by auto
  then have "isDigit (last c)"
    using dig by (simp add: list_all_iff)
  then have differ: "digit_val d \<noteq> digit_val (last c)"
    using assms(2,3) digit_val_inj by blast
  have chk': "digit_val (last c) = (10 - ?rem) mod 10"
    using chk by (simp add: add.commute)
  have "10 - ?rem \<noteq> digit_val d"
  proof (cases "?rem = 0")
    case True
    then show ?thesis using digit_val_bounds [OF assms(2)] by simp
  next
    case False
    then have "(10 - ?rem) mod 10 = 10 - ?rem" by simp
    then show ?thesis using chk' differ by simp
  qed
  moreover have "list_all isDigit (butlast c @ [d])"
    using dig assms(2) by (auto simp: list_all_iff dest: in_set_butlastD)
  moreover have "length (butlast c @ [d]) = 13"
    using len by simp
  ultimately show ?thesis
    using validateUpcOrEan_digits [of "butlast c @ [d]"] by (simp add: pad12_def)
qed

text \<open>
  Claim C3. 123456789050 is a valid twelve-digit UPC whose check digit is 0; the validator
  rejects it instead of returning it with a leading 0.
\<close>

theorem upc_check_digit_zero_rejected:
  "valid_upc12 ''123456789050'' \<and>
   validateUpcOrEan ''123456789050'' = Inl [Message ''Invalid UPC or EAN.'' Error Validate]"
proof -
  have d: "list_all isDigit ''123456789050''"
    by (simp add: isDigit_def)
  have "valid_upc12 ''123456789050''"
    by (simp add: valid_upc12_def valid_gtin13_def isDigit_def digit_val_def gtin13_check_digit_def)
  moreover have "validateUpcOrEan ''123456789050'' = Inl [Message ''Invalid UPC or EAN.'' Error Validate]"
    using d by (simp add: validateUpcOrEan_digits pad12_def digit_val_def)
  ultimately show ?thesis by simp
qed

text \<open>The literal example of the specification is accepted and padded.\<close>

lemma upc_literal_example:
  "valid_upc12 ''036000291452'' \<and> validateUpcOrEan ''036000291452'' = Inr ''0036000291452''"
proof -
  have d: "list_all isDigit ''036000291452''"
    by (simp add: isDigit_def)
  have "valid_upc12 ''036000291452''"
    by (simp add: valid_upc12_def valid_gtin13_def isDigit_def digit_val_def gtin13_check_digit_def)
  moreover have "validateUpcOrEan ''036000291452'' = Inr ''0036000291452''"
    using d by (simp add: validateUpcOrEan_digits pad12_def digit_val_def)
  ultimately show ?thesis by simp
qed

text \<open>
  Claim C4. The validator succeeds on a valid UPC with a leading space and on a string of
  fourteen digits, and returns each unchanged: neither success value is a string of
  thirteen digits.
\<close>

theorem success_value_not_13_digits:
  "validateUpcOrEan '' 036000291452'' = Inr '' 036000291452'' \<and>
   \<not> list_all isDigit '' 036000291452'' \<and>
   validateUpcOrEan ''00000000000019'' = Inr ''00000000000019'' \<and>
   length ''00000000000019'' = 14"
  by (simp add: validateUpcOrEan_def fromPredicate_def regexp_test_def digits_12_13_def
        match_at_def isDigit_def isStrWhiteSpace_def pad12_def checksum_def allDigits_def
        Number_of_char_def partitionWithIndex_def reduce_sum_def trunc_def)

subsection \<open>All the combinators\<close>

text \<open>
  Claim C8. Two successive invocations of one thunk of the no-spaces check on the same
  value: the first succeeds and the second fails, because the first call of \<open>test\<close> left
  \<open>lastIndex\<close> at the end of the value.
\<close>

theorem regex_thunk_not_idempotent:
  "fst (validateRegex no_spaces ''http://a.co/p1'') = Inr ''http://a.co/p1'' \<and>
   fst (validateRegex (snd (validateRegex no_spaces ''http://a.co/p1'')) ''http://a.co/p1'')
     = Inl [Message ''Value does not meet required format.'' Warn Validate]"
  by (simp add: validateRegex_def regexp_test_def no_spaces_def match_at_def split_beta)

lemma validateUpcOrEan_cases:
  "validateUpcOrEan v = Inl [Message ''Must be 12 or 13 digits.'' Error Validate] \<or>
   validateUpcOrEan v = Inl [Message ''Invalid UPC or EAN.'' Error Validate] \<or>
   validateUpcOrEan v = Inr (pad12 v)"
  by (simp add: validateUpcOrEan_def fromPredicate_def checksum_def Let_def split_beta)

text \<open>
  Claim C10. Every failure that a combinator produces carries exactly one issue, of the
  severity of that combinator: \<open>warn\<close> for the maximal length and for the regular
  expression, \<open>error\<close> for the whole number, the range, the positive value and the UPC or
  EAN check. So no combinator fails with an empty list of issues.
\<close>

theorem singleton_failure:
  "fails_once_with Warn (validateMaxLength toStr len s) \<and>
   fails_once_with Error (validateWholeNumber x) \<and>
   fails_once_with Error (validateRangeInclusive toStr mn mx y) \<and>
   fails_once_with Warn (fst (validateRegex regex t)) \<and>
   fails_once_with Error (validatePositive z) \<and>
   fails_once_with Error (validateUpcOrEan u)"
proof -
  have "fails_once_with Error (validateUpcOrEan u)"
    using validateUpcOrEan_cases [of u] by (auto simp: fails_once_with_def)
  then show ?thesis
    by (simp add: fails_once_with_def validateMaxLength_def validateWholeNumber_def
          validateRangeInclusive_def validateRegex_def validatePositive_def split_beta)
qed

theorem singleton_failure_witness:
  "isl (validateMaxLength (\<lambda>_. ''n'') (Num 2) ''abc'') \<and>
   isl (validateWholeNumber (Num (5 / 2))) \<and>
   isl (validateRangeInclusive (\<lambda>_. ''n'') (Num 1) (Num 5) (Num 6)) \<and>
   isl (fst (validateRegex no_spaces '' '')) \<and>
   isl (validatePositive (Num 0)) \<and>
   isl (validateUpcOrEan ''12345'') \<and>
   fails_once_with Warn (validateMaxLength (\<lambda>_. ''n'') (Num 2) ''abc'') \<and>
   fails_once_with Error (validateWholeNumber (Num (5 / 2))) \<and>
   fails_once_with Error (validateRangeInclusive (\<lambda>_. ''n'') (Num 1) (Num 5) (Num 6)) \<and>
   fails_once_with Warn (fst (validateRegex no_spaces '' '')) \<and>
   fails_once_with Error (validatePositive (Num 0)) \<and>
   fails_once_with Error (validateUpcOrEan ''12345'')"
  using singleton_failure [of "\<lambda>_. ''n''" "Num 2" "''abc''" "Num (5 / 2)"
          "Num 1" "Num 5" "Num 6" no_spaces "'' ''" "Num 0" "''12345''"]
  by (simp add: validateMaxLength_def validateWholeNumber_def validateRangeInclusive_def
        validateRegex_def validatePositive_def validateUpcOrEan_def fromPredicate_def
        regexp_test_def no_spaces_def digits_12_13_def match_at_def isDigit_def trunc_def
        split_beta)

end
